theory Spec2Isabelle
  imports Complex_Main "HOL-Library.Multiset" "HOL-Library.Char_ord"
    "HOL-Library.List_Lexorder" "HOL-Library.Product_Lexorder"
begin

section \<open>Python strings\<close>

text \<open>
  A Python \<open>str\<close> is a sequence of code points. The model is \<^typ>\<open>string\<close>, whose
  characters are the code points U+0000 to U+00FF; \<open>length\<close> counts characters as
  Python's \<open>len\<close> does on that range.
\<close>

definition ord :: "char \<Rightarrow> nat" where
  "ord c = of_char c"

text \<open>\<open>str.isspace\<close> and the regular expression class \<open>\s\<close> on that range.\<close>

definition is_space :: "char \<Rightarrow> bool" where
  "is_space c = ((9 \<le> ord c \<and> ord c \<le> 13) \<or> (28 \<le> ord c \<and> ord c \<le> 32)
                 \<or> ord c = 133 \<or> ord c = 160)"

text \<open>\<open>s.strip()\<close>\<close>

definition strip :: "string \<Rightarrow> string" where
  "strip s = rev (dropWhile is_space (rev (dropWhile is_space s)))"

text \<open>\<open>s.lower()\<close>: A-Z, and the upper-case letters of Latin-1 (all of U+00C0 to U+00DE but
  the multiplication sign U+00D7).\<close>

definition lower_char :: "char \<Rightarrow> char" where
  "lower_char c =
     (if (65 \<le> ord c \<and> ord c \<le> 90) \<or> (192 \<le> ord c \<and> ord c \<le> 222 \<and> ord c \<noteq> 215)
      then char_of (ord c + 32) else c)"

definition lower :: "string \<Rightarrow> string" where
  "lower s = map lower_char s"

text \<open>\<open>re.sub(r"\s+", " ", s)\<close>: every maximal run of white space becomes one space.\<close>

function collapse_ws :: "string \<Rightarrow> string" where
  "collapse_ws [] = []"
| "collapse_ws (c # cs) =
     (if is_space c then CHR '' '' # collapse_ws (dropWhile is_space cs)
      else c # collapse_ws cs)"
  by pat_completeness auto
termination
  by (relation "measure length") (auto simp: length_dropWhile_le less_Suc_eq_le)

definition is_lower_alnum :: "char \<Rightarrow> bool" where
  "is_lower_alnum c = ((97 \<le> ord c \<and> ord c \<le> 122) \<or> (48 \<le> ord c \<and> ord c \<le> 57))"

text \<open>\<open>re.sub(r"[^a-z0-9 \-]", "", s)\<close>\<close>

definition keep_key_chars :: "string \<Rightarrow> string" where
  "keep_key_chars s = filter (\<lambda>c. is_lower_alnum c \<or> c = CHR '' '' \<or> c = CHR ''-'') s"

text \<open>Decimal rendering of a Python \<open>int\<close>, as the f-string \<open>f"{n}"\<close> does it.\<close>

definition digit_char :: "nat \<Rightarrow> char" where
  "digit_char d = char_of (48 + d)"

fun str_nat :: "nat \<Rightarrow> string" where
  "str_nat n = (if n < 10 then [digit_char n] else str_nat (n div 10) @ [digit_char (n mod 10)])"

declare str_nat.simps [simp del]

definition str_int :: "int \<Rightarrow> string" where
  "str_int i = (if i < 0 then CHR ''-'' # str_nat (nat (- i)) else str_nat (nat i))"

text \<open>\<open>s or None\<close> on a string.\<close>

definition or_none :: "string \<Rightarrow> string option" where
  "or_none s = (if s = [] then None else Some s)"

text \<open>\<open>(s or "")\<close> on an optional string.\<close>

definition or_empty :: "string option \<Rightarrow> string" where
  "or_empty p = (case p of None \<Rightarrow> [] | Some s \<Rightarrow> s)"

section \<open>The uniqueness key of a show\<close>

definition norm :: "string \<Rightarrow> string" where
  "norm s = strip (keep_key_chars (collapse_ws (lower (strip s))))"

definition norm_key :: "int \<Rightarrow> string \<Rightarrow> string \<Rightarrow> string" where
  "norm_key year corps title = str_int year @ ''|'' @ norm corps @ ''|'' @ norm title"

section \<open>The store\<close>

text \<open>
  Each table is the list of its rows, in rowid order. The constraints of the schema are
  predicates on the store; a statement that would break one raises
  \<open>sqlite3.IntegrityError\<close> and writes nothing.
\<close>

datatype error = ValueError string | IntegrityError | OverflowError

record show_row =
  show_id :: int
  show_title :: string
  show_corps :: string
  show_year :: int
  show_poster_url :: "string option"
  show_norm_key :: string
  show_created_ts :: int

record user_row =
  user_id :: int
  user_username :: string
  user_avatar_url :: "string option"

record rating_row =
  rating_show_id :: int
  rating_user_id :: int
  rating_half :: int
  rating_ts :: int

record review_row =
  review_show_id :: int
  review_user_id :: int
  review_text :: string
  review_ts :: int

record vote_row =
  vote_show_id :: int
  vote_review_user_id :: int
  vote_voter_user_id :: int
  vote_value :: int
  vote_ts :: int

record role_row =
  role_id :: int
  role_name :: string
  role_slug :: string
  role_color :: "string option"
  role_created_ts :: int

record db =
  shows_tbl :: "show_row list"
  users_tbl :: "user_row list"
  ratings_tbl :: "rating_row list"
  reviews_tbl :: "review_row list"
  review_votes_tbl :: "vote_row list"
  roles_tbl :: "role_row list"
  roles_seq :: int

text \<open>A Python \<open>int\<close> is unbounded; an SQLite \<open>INTEGER\<close> is a signed 64-bit value, and
  \<open>sqlite3\<close> raises \<open>OverflowError\<close> when it is asked to bind an \<open>int\<close> outside that range.\<close>

definition in_int64 :: "int \<Rightarrow> bool" where
  "in_int64 i = (- (2 ^ 63) \<le> i \<and> i < 2 ^ 63)"

text \<open>An operation returns the store it leaves and either the exception it raised or its value.\<close>

type_synonym 'a outcome = "db \<times> (error + 'a)"

definition show_exists :: "db \<Rightarrow> int \<Rightarrow> bool" where
  "show_exists conn sid = (sid \<in> set (map show_id (shows_tbl conn)))"

definition user_exists :: "db \<Rightarrow> int \<Rightarrow> bool" where
  "user_exists conn uid = (uid \<in> set (map user_id (users_tbl conn)))"

text \<open>The rowid SQLite gives a new row of a table with an \<open>INTEGER PRIMARY KEY\<close>: one more
  than the largest in the table, 1 in an empty table.\<close>

definition next_rowid :: "int list \<Rightarrow> int" where
  "next_rowid ids = (if ids = [] then 1 else Max (set ids) + 1)"

section \<open>Show catalog\<close>

text \<open>
  Modelled from the spec: the table \<open>shows\<close> is declared in \<open>schema.sql\<close>, which is not among
  the sources. The spec gives it a uniqueness constraint on \<open>norm_key\<close>; \<open>add_show\<close> relies on
  it when it catches \<open>IntegrityError\<close>. The statement is
  \<open>INSERT INTO shows(title, corps, year, poster_url, norm_key, created_ts)\<close>; binding a
  year outside the 64-bit range raises \<open>OverflowError\<close> before the statement runs.
\<close>

definition insert_show ::
  "db \<Rightarrow> string \<Rightarrow> string \<Rightarrow> int \<Rightarrow> string option \<Rightarrow> string \<Rightarrow> int \<Rightarrow> int outcome" where
  "insert_show conn title corps year poster key ts =
     (if \<not> in_int64 year then (conn, Inl OverflowError)
      else if key \<in> set (map show_norm_key (shows_tbl conn)) then (conn, Inl IntegrityError)
      else
        let new_id = next_rowid (map show_id (shows_tbl conn));
            row = \<lparr>show_id = new_id, show_title = title, show_corps = corps, show_year = year,
                   show_poster_url = poster, show_norm_key = key, show_created_ts = ts\<rparr>
        in (conn\<lparr>shows_tbl := shows_tbl conn @ [row]\<rparr>, Inr new_id))"

text \<open>\<open>SELECT id, poster_url FROM shows WHERE norm_key = ?\<close> with \<open>fetchone()\<close>\<close>

definition show_by_norm_key :: "db \<Rightarrow> string \<Rightarrow> show_row option" where
  "show_by_norm_key conn key = find (\<lambda>r. show_norm_key r = key) (shows_tbl conn)"

text \<open>\<open>UPDATE shows SET poster_url = ? WHERE id = ?\<close>\<close>

definition set_show_poster :: "db \<Rightarrow> string option \<Rightarrow> int \<Rightarrow> db" where
  "set_show_poster conn poster sid =
     conn\<lparr>shows_tbl := map (\<lambda>r. if show_id r = sid then r\<lparr>show_poster_url := poster\<rparr> else r)
                        (shows_tbl conn)\<rparr>"

text \<open>\<open>row["poster_url"] is None or str(row["poster_url"]).strip() == ""\<close>\<close>

definition poster_blank :: "string option \<Rightarrow> bool" where
  "poster_blank p = (case p of None \<Rightarrow> True | Some s \<Rightarrow> strip s = [])"

definition add_show ::
  "db \<Rightarrow> int \<Rightarrow> int \<Rightarrow> string \<Rightarrow> string \<Rightarrow> string option \<Rightarrow> (bool \<times> int option \<times> string) outcome"
where
  "add_show conn now year corps title poster_url =
     (let corps_s = strip corps;
          title_s = strip title;
          poster_s = or_none (strip (or_empty poster_url))
      in if corps_s = [] \<or> title_s = [] then
           (conn, Inr (False, None, ''Missing corps or title.''))
         else
           let key = norm_key year corps_s title_s in
           case insert_show conn title_s corps_s year poster_s key now of
             (conn', Inr new_id) \<Rightarrow> (conn', Inr (True, Some new_id, ''Inserted''))
           | (conn', Inl IntegrityError) \<Rightarrow>
               (case show_by_norm_key conn' key of
                  Some row \<Rightarrow>
                    if poster_s \<noteq> None \<and> poster_blank (show_poster_url row) then
                      (set_show_poster conn' poster_s (show_id row),
                       Inr (False, Some (show_id row), ''Duplicate (poster updated)''))
                    else (conn', Inr (False, Some (show_id row), ''Duplicate''))
                | None \<Rightarrow> (conn', Inr (False, None, ''Duplicate'')))
           | (conn', Inl e) \<Rightarrow> (conn', Inl e))"

text \<open>The store with no rows.\<close>

definition empty_db :: db where
  "empty_db = \<lparr>shows_tbl = [], users_tbl = [], ratings_tbl = [], reviews_tbl = [],
                review_votes_tbl = [], roles_tbl = [], roles_seq = 0\<rparr>"

section \<open>Rating ledger\<close>

text \<open>
  Modelled from the spec: the table \<open>ratings\<close> is declared in \<open>schema.sql\<close>, which is not among
  the sources. The spec gives it a uniqueness constraint on \<open>(show_id, user_id)\<close>, which the
  \<open>ON CONFLICT(show_id, user_id)\<close> clause of \<open>upsert_rating\<close> needs, and foreign keys to
  \<open>shows\<close> and \<open>users\<close>; \<open>ensure_half_star_migration\<close> declares \<open>rating_half\<close> as
  \<open>INTEGER NOT NULL\<close>. The statement is \<open>INSERT ... ON CONFLICT DO UPDATE\<close>: a row with
  the key is overwritten, otherwise a row is inserted, which the foreign keys can refuse.
\<close>

definition rating_key :: "rating_row \<Rightarrow> int \<times> int" where
  "rating_key r = (rating_show_id r, rating_user_id r)"

definition upsert_rating :: "db \<Rightarrow> int \<Rightarrow> int \<Rightarrow> int \<Rightarrow> int \<Rightarrow> unit outcome" where
  "upsert_rating conn now sid uid rating_half_in =
     (let rh = max 0 (min 10 rating_half_in) in
      if (sid, uid) \<in> set (map rating_key (ratings_tbl conn)) then
        (conn\<lparr>ratings_tbl :=
            map (\<lambda>r. if rating_key r = (sid, uid) then r\<lparr>rating_half := rh, rating_ts := now\<rparr> else r)
                (ratings_tbl conn)\<rparr>, Inr ())
      else if \<not> show_exists conn sid \<or> \<not> user_exists conn uid then (conn, Inl IntegrityError)
      else
        (conn\<lparr>ratings_tbl := ratings_tbl conn @
            [\<lparr>rating_show_id = sid, rating_user_id = uid, rating_half = rh, rating_ts = now\<rparr>]\<rparr>,
         Inr ()))"

text \<open>The rows stored under a key.\<close>

definition ratings_for :: "db \<Rightarrow> int \<times> int \<Rightarrow> rating_row list" where
  "ratings_for conn k = filter (\<lambda>r. rating_key r = k) (ratings_tbl conn)"

section \<open>Review ledger\<close>

text \<open>
  The table \<open>reviews\<close> is declared in \<open>ensure_reviews_table\<close>, with primary key
  \<open>(show_id, user_id)\<close> and foreign keys to \<open>shows\<close> and \<open>users\<close>. The two \<open>ValueError\<close>s
  are raised before any statement runs.
\<close>

definition review_key :: "review_row \<Rightarrow> int \<times> int" where
  "review_key r = (review_show_id r, review_user_id r)"

definition upsert_review :: "db \<Rightarrow> int \<Rightarrow> int \<Rightarrow> int \<Rightarrow> string \<Rightarrow> unit outcome" where
  "upsert_review conn now sid uid review_text_in =
     (let text = strip review_text_in in
      if text = [] then (conn, Inl (ValueError ''Review cannot be empty.''))
      else if length text > 5000 then (conn, Inl (ValueError ''Review is too long (max 5000 chars).''))
      else if (sid, uid) \<in> set (map review_key (reviews_tbl conn)) then
        (conn\<lparr>reviews_tbl :=
            map (\<lambda>r. if review_key r = (sid, uid) then r\<lparr>review_text := text, review_ts := now\<rparr> else r)
                (reviews_tbl conn)\<rparr>, Inr ())
      else if \<not> show_exists conn sid \<or> \<not> user_exists conn uid then (conn, Inl IntegrityError)
      else
        (conn\<lparr>reviews_tbl := reviews_tbl conn @
            [\<lparr>review_show_id = sid, review_user_id = uid, review_text = text, review_ts = now\<rparr>]\<rparr>,
         Inr ()))"

text \<open>The rows stored under a key.\<close>

definition reviews_for :: "db \<Rightarrow> int \<times> int \<Rightarrow> review_row list" where
  "reviews_for conn k = filter (\<lambda>r. review_key r = k) (reviews_tbl conn)"

section \<open>Vote ledger\<close>

text \<open>
  The table \<open>review_votes\<close> is declared in \<open>ensure_review_votes_table\<close>: its primary key is
  \<open>(show_id, review_user_id, voter_user_id)\<close>, and each of the three columns is a foreign key
  (to \<open>shows\<close>, \<open>users\<close>, \<open>users\<close>). \<open>connect\<close> turns foreign keys on, so an \<open>INSERT\<close> whose
  show or users do not exist raises \<open>IntegrityError\<close>.
\<close>

definition vote_key :: "vote_row \<Rightarrow> int \<times> int \<times> int" where
  "vote_key r = (vote_show_id r, vote_review_user_id r, vote_voter_user_id r)"

text \<open>The \<open>SELECT vote ... WHERE show_id = ? AND review_user_id = ? AND voter_user_id = ?\<close>
  with \<open>fetchone()\<close>: the vote of the first row with the key, if any.\<close>

definition select_vote :: "db \<Rightarrow> int \<Rightarrow> int \<Rightarrow> int \<Rightarrow> int option" where
  "select_vote conn sid author voter =
     map_option vote_value (find (\<lambda>r. vote_key r = (sid, author, voter)) (review_votes_tbl conn))"

definition insert_vote :: "db \<Rightarrow> int \<Rightarrow> int \<Rightarrow> int \<Rightarrow> int \<Rightarrow> int \<Rightarrow> unit outcome" where
  "insert_vote conn sid author voter vote ts =
     (if (sid, author, voter) \<in> set (map vote_key (review_votes_tbl conn))
         \<or> \<not> show_exists conn sid \<or> \<not> user_exists conn author \<or> \<not> user_exists conn voter
      then (conn, Inl IntegrityError)
      else (conn\<lparr>review_votes_tbl := review_votes_tbl conn @
              [\<lparr>vote_show_id = sid, vote_review_user_id = author, vote_voter_user_id = voter,
                vote_value = vote, vote_ts = ts\<rparr>]\<rparr>, Inr ()))"

definition delete_vote :: "db \<Rightarrow> int \<Rightarrow> int \<Rightarrow> int \<Rightarrow> db" where
  "delete_vote conn sid author voter =
     conn\<lparr>review_votes_tbl := filter (\<lambda>r. vote_key r \<noteq> (sid, author, voter)) (review_votes_tbl conn)\<rparr>"

definition update_vote :: "db \<Rightarrow> int \<Rightarrow> int \<Rightarrow> int \<Rightarrow> int \<Rightarrow> int \<Rightarrow> db" where
  "update_vote conn vote ts sid author voter =
     conn\<lparr>review_votes_tbl :=
        map (\<lambda>r. if vote_key r = (sid, author, voter) then r\<lparr>vote_value := vote, vote_ts := ts\<rparr> else r)
            (review_votes_tbl conn)\<rparr>"

definition set_review_vote :: "db \<Rightarrow> int \<Rightarrow> int \<Rightarrow> int \<Rightarrow> int \<Rightarrow> int \<Rightarrow> unit outcome" where
  "set_review_vote conn now sid author voter vote_in =
     (let vote = (if vote_in > 0 then 1 else - 1) in
      case select_vote conn sid author voter of
        None \<Rightarrow> insert_vote conn sid author voter vote now
      | Some existing \<Rightarrow>
          if existing = vote then (delete_vote conn sid author voter, Inr ())
          else (update_vote conn vote now sid author voter, Inr ()))"

text \<open>The rows stored under a key.\<close>

definition votes_for :: "db \<Rightarrow> int \<times> int \<times> int \<Rightarrow> vote_row list" where
  "votes_for conn k = filter (\<lambda>r. vote_key r = k) (review_votes_tbl conn)"

text \<open>A store with one show, two users and the given votes.\<close>

definition vote_db :: "vote_row list \<Rightarrow> db" where
  "vote_db vs = \<lparr>shows_tbl = [\<lparr>show_id = 1, show_title = ''Metamorph'', show_corps = ''Blue Devils'',
        show_year = 2017, show_poster_url = None,
        show_norm_key = ''2017|blue devils|metamorph'', show_created_ts = 10\<rparr>],
     users_tbl = [\<lparr>user_id = 1, user_username = ''alice'', user_avatar_url = None\<rparr>,
                  \<lparr>user_id = 2, user_username = ''bob'', user_avatar_url = None\<rparr>,
        \<lparr>user_id = 3, user_username = ''carol'', user_avatar_url = None\<rparr>],
     ratings_tbl = [], reviews_tbl = [], review_votes_tbl = vs, roles_tbl = [], roles_seq = 0\<rparr>"

definition down_vote :: vote_row where
  "down_vote = \<lparr>vote_show_id = 1, vote_review_user_id = 1, vote_voter_user_id = 2,
                 vote_value = - 1, vote_ts = 50\<rparr>"

section \<open>Role directory\<close>

text \<open>\<open>re.sub(r"[^a-z0-9]+", "-", s)\<close>: every maximal run of other characters becomes one hyphen.\<close>

function hyphenate :: "string \<Rightarrow> string" where
  "hyphenate [] = []"
| "hyphenate (c # cs) =
     (if is_lower_alnum c then c # hyphenate cs
      else CHR ''-'' # hyphenate (dropWhile (\<lambda>d. \<not> is_lower_alnum d) cs))"
  by pat_completeness auto
termination
  by (relation "measure length") (auto simp: length_dropWhile_le less_Suc_eq_le)

text \<open>\<open>s.strip("-")\<close>\<close>

definition strip_hyphens :: "string \<Rightarrow> string" where
  "strip_hyphens s =
     rev (dropWhile (\<lambda>c. c = CHR ''-'') (rev (dropWhile (\<lambda>c. c = CHR ''-'') s)))"

definition slugify :: "string \<Rightarrow> string" where
  "slugify name =
     (let s = strip_hyphens (hyphenate (lower (strip name)))
      in if s = [] then ''role'' else s)"

definition is_hex_digit :: "char \<Rightarrow> bool" where
  "is_hex_digit c = ((48 \<le> ord c \<and> ord c \<le> 57) \<or> (97 \<le> ord c \<and> ord c \<le> 102)
                     \<or> (65 \<le> ord c \<and> ord c \<le> 70))"

text \<open>\<open>_HEX_COLOR_RE.match(s)\<close> on a stripped string.\<close>

definition is_hex_color :: "string \<Rightarrow> bool" where
  "is_hex_color s = (case s of [] \<Rightarrow> False | c # cs \<Rightarrow> c = CHR ''#'' \<and> length cs = 6 \<and> list_all is_hex_digit cs)"

definition clean_hex_color :: "string \<Rightarrow> string" where
  "clean_hex_color s = (let t = strip s in if is_hex_color t then t else [])"

text \<open>The decimal rendering is injective.\<close>

lemma digit_char_inj: "a < 10 \<Longrightarrow> b < 10 \<Longrightarrow> digit_char a = digit_char b \<Longrightarrow> a = b"
proof -
  assume a: "a < 10" "b < 10" "digit_char a = digit_char b"
  then have "(of_char (digit_char a) :: nat) = of_char (digit_char b)" by simp
  with a(1,2) show "a = b" by (simp add: digit_char_def)
qed

lemma str_nat_nonempty: "str_nat n \<noteq> []"
  by (subst str_nat.simps) simp

lemma str_nat_inj: "str_nat m = str_nat n \<Longrightarrow> m = n"
proof (induction m arbitrary: n rule: str_nat.induct)
  case (1 m)
  show ?case
  proof (cases "m < 10")
    case True
    then have m: "str_nat m = [digit_char m]" by (subst str_nat.simps) simp
    show ?thesis
    proof (cases "n < 10")
      case n: True
      then have "str_nat n = [digit_char n]" by (subst str_nat.simps) simp
      with m "1.prems" True n show ?thesis by (auto dest: digit_char_inj)
    next
      case False
      then have "str_nat n = str_nat (n div 10) @ [digit_char (n mod 10)]"
        by (subst str_nat.simps) simp
      with m "1.prems" str_nat_nonempty [of "n div 10"] show ?thesis
        by (cases "str_nat (n div 10)") auto
    qed
  next
    case False
    then have m: "str_nat m = str_nat (m div 10) @ [digit_char (m mod 10)]"
      by (subst str_nat.simps) simp
    show ?thesis
    proof (cases "n < 10")
      case True
      then have "str_nat n = [digit_char n]" by (subst str_nat.simps) simp
      with m "1.prems" str_nat_nonempty [of "m div 10"] show ?thesis
        by (cases "str_nat (m div 10)") auto
    next
      case n: False
      then have "str_nat n = str_nat (n div 10) @ [digit_char (n mod 10)]"
        by (subst str_nat.simps) simp
      with m "1.prems" have e: "str_nat (m div 10) = str_nat (n div 10)"
        "digit_char (m mod 10) = digit_char (n mod 10)" by simp_all
      from "1.IH" [OF False e(1)] have d: "m div 10 = n div 10" .
      from e(2) have "m mod 10 = n mod 10" by (auto dest!: digit_char_inj [rotated 2])
      with d show ?thesis by (metis div_mult_mod_eq)
    qed
  qed
qed


lemma slug_candidates_finite: "finite {k. base @ ''-'' @ str_nat k \<in> set taken}"
proof -
  have "inj (\<lambda>k. base @ ''-'' @ str_nat k)"
    by (rule injI) (simp add: str_nat_inj)
  then have "finite ((\<lambda>k. base @ ''-'' @ str_nat k) -` set taken)"
    by (rule finite_vimageI [OF finite_set])
  then show ?thesis by (simp add: vimage_def)
qed

text \<open>The loop of \<open>create_role\<close>: while the slug is taken, try \<open>base-n\<close> for the next \<open>n\<close>,
  from 2. It ends because the candidates are pairwise distinct and the table is finite.\<close>

function unique_slug :: "string list \<Rightarrow> string \<Rightarrow> string \<Rightarrow> nat \<Rightarrow> string" where
  "unique_slug taken base slug n =
     (if slug \<in> set taken then unique_slug taken base (base @ ''-'' @ str_nat n) (Suc n)
      else slug)"
  by pat_completeness auto
termination
proof (relation "measure (\<lambda>(taken, base, slug, n).
    card {k. n \<le> k \<and> base @ ''-'' @ str_nat k \<in> set taken}
    + (if slug \<in> set taken then 1 else 0))")
  show "wf (measure (\<lambda>(taken, base, slug, n).
    card {k. n \<le> k \<and> base @ ''-'' @ str_nat k \<in> set taken}
    + (if slug \<in> set taken then 1 else 0)))" by simp
next
  fix taken :: "string list" and base slug :: string and n :: nat
  assume "slug \<in> set taken"
  let ?A = "\<lambda>m. {k. m \<le> k \<and> base @ ''-'' @ str_nat k \<in> set taken}"
  have fin: "finite (?A m)" for m
    by (rule finite_subset [OF _ slug_candidates_finite [of base taken]]) auto
  have split: "?A n = (if base @ ''-'' @ str_nat n \<in> set taken then insert n (?A (Suc n))
                       else ?A (Suc n))"
    by (auto simp: Suc_le_eq order_le_less)
  have "card (?A (Suc n)) + (if base @ ''-'' @ str_nat n \<in> set taken then 1 else 0) = card (?A n)"
    unfolding split using fin [of "Suc n"] by simp
  with \<open>slug \<in> set taken\<close>
  show "((taken, base, base @ ''-'' @ str_nat n, Suc n), (taken, base, slug, n))
        \<in> measure (\<lambda>(taken, base, slug, n).
            card {k. n \<le> k \<and> base @ ''-'' @ str_nat k \<in> set taken}
            + (if slug \<in> set taken then 1 else 0))"
    by simp
qed

declare unique_slug.simps [simp del]

text \<open>The id SQLite gives a new row of a table whose key is \<open>AUTOINCREMENT\<close>: one more than the
  largest id the table has ever held.\<close>

definition next_autoincrement :: "int \<Rightarrow> int list \<Rightarrow> int" where
  "next_autoincrement seq ids = max seq (if ids = [] then 0 else Max (set ids)) + 1"

text \<open>\<open>INSERT INTO roles(name, slug, color, created_ts)\<close> on the table of
  \<open>ensure_roles_tables\<close>: \<open>name\<close> and \<open>slug\<close> are both \<open>UNIQUE\<close>.\<close>

definition insert_role :: "db \<Rightarrow> string \<Rightarrow> string \<Rightarrow> string option \<Rightarrow> int \<Rightarrow> unit outcome" where
  "insert_role conn name slug color ts =
     (if name \<in> set (map role_name (roles_tbl conn)) \<or> slug \<in> set (map role_slug (roles_tbl conn))
      then (conn, Inl IntegrityError)
      else
        let new_id = next_autoincrement (roles_seq conn) (map role_id (roles_tbl conn))
        in (conn\<lparr>roles_tbl := roles_tbl conn @
               [\<lparr>role_id = new_id, role_name = name, role_slug = slug, role_color = color,
                 role_created_ts = ts\<rparr>],
             roles_seq := new_id\<rparr>, Inr ()))"

definition create_role :: "db \<Rightarrow> int \<Rightarrow> string \<Rightarrow> string \<Rightarrow> unit outcome" where
  "create_role conn now name color =
     (let nm = strip name in
      if nm = [] then (conn, Inl (ValueError ''Role name is required.''))
      else
        let base = slugify nm;
            col = or_none (clean_hex_color color);
            slug = unique_slug (map role_slug (roles_tbl conn)) base base 2
        in insert_role conn nm slug col now)"

section \<open>Catalog listing\<close>









section \<open>Leaderboard\<close>
















text \<open>The store after the role \<open>"Veterans!!"\<close> was created in the empty store.\<close>

definition veterans_db :: db where
  "veterans_db = empty_db\<lparr>roles_tbl := [\<lparr>role_id = 1, role_name = ''Veterans!!'',
      role_slug = ''veterans'', role_color = None, role_created_ts = 10\<rparr>], roles_seq := 1\<rparr>"

section \<open>Properties of the show catalog\<close>

lemma dropWhile_rev_prefix:
  assumes "xs = [] \<or> \<not> P (hd xs)"
  shows "dropWhile P (rev (dropWhile P (rev xs))) = rev (dropWhile P (rev xs))"
proof (cases "rev (dropWhile P (rev xs))")
  case Nil
  then show ?thesis by (simp only: dropWhile.simps)
next
  case (Cons y ys)
  have "rev (takeWhile P (rev xs) @ dropWhile P (rev xs)) = xs" by simp
  then have "xs = (y # ys) @ rev (takeWhile P (rev xs))"
    using Cons by (simp only: rev_append)
  then have "hd xs = y" and "xs \<noteq> []" by (cases xs; simp)+
  with assms have "\<not> P y" by simp
  with Cons show ?thesis by simp
qed

lemma strip_strip: "strip (strip s) = strip s"
proof -
  let ?a = "dropWhile is_space s"
  have a: "?a = [] \<or> \<not> is_space (hd ?a)"
    using hd_dropWhile [of is_space s] by blast
  have "dropWhile is_space (rev (dropWhile is_space (rev ?a))) = rev (dropWhile is_space (rev ?a))"
    using a by (rule dropWhile_rev_prefix [where P = is_space and xs = "dropWhile is_space s"])
  then show ?thesis by (simp add: strip_def)
qed

lemma norm_strip: "norm (strip s) = norm s"
  by (simp add: norm_def strip_strip)

lemma norm_key_strip: "norm_key y (strip c) (strip t) = norm_key y c t"
  by (simp add: norm_key_def norm_strip)

lemma unique_key_row:
  "distinct (map f xs) \<Longrightarrow> k \<in> set (map f xs) \<Longrightarrow>
   \<exists>r. filter (\<lambda>r. f r = k) xs = [r] \<and> find (\<lambda>r. f r = k) xs = Some r"
proof (induction xs)
  case Nil
  then show ?case by simp
next
  case (Cons x xs)
  show ?case
  proof (cases "f x = k")
    case True
    with Cons.prems have "k \<notin> f ` set xs" by auto
    then have "filter (\<lambda>r. f r = k) xs = []" by (auto simp: filter_empty_conv)
    with True show ?thesis by simp
  next
    case False
    with Cons show ?thesis by auto
  qed
qed

lemma filter_map_keep:
  "(\<And>r. f (g r) = f r) \<Longrightarrow> filter (\<lambda>r. f r = k) (map g xs) = map g (filter (\<lambda>r. f r = k) xs)"
  by (induction xs) auto

lemma find_SomeD: "find P xs = Some x \<Longrightarrow> x \<in> set xs \<and> P x"
  by (induction xs) (auto split: if_splits)

lemma add_show_new:
  assumes "strip corps \<noteq> []" "strip title \<noteq> []"
    and "norm_key year corps title \<notin> set (map show_norm_key (shows_tbl conn))"
    and "in_int64 year"
  shows "add_show conn now year corps title poster =
     (conn\<lparr>shows_tbl := shows_tbl conn @
        [\<lparr>show_id = next_rowid (map show_id (shows_tbl conn)), show_title = strip title,
          show_corps = strip corps, show_year = year,
          show_poster_url = or_none (strip (or_empty poster)),
          show_norm_key = norm_key year corps title, show_created_ts = now\<rparr>]\<rparr>,
      Inr (True, Some (next_rowid (map show_id (shows_tbl conn))), ''Inserted''))"
  using assms by (simp add: add_show_def insert_show_def norm_key_strip Let_def)

lemma add_show_dup:
  assumes "strip corps \<noteq> []" "strip title \<noteq> []"
    and "find (\<lambda>r. show_norm_key r = norm_key year corps title) (shows_tbl conn) = Some row"
    and "in_int64 year"
  shows "add_show conn now year corps title poster =
     (if or_none (strip (or_empty poster)) \<noteq> None \<and> poster_blank (show_poster_url row)
      then (set_show_poster conn (or_none (strip (or_empty poster))) (show_id row),
            Inr (False, Some (show_id row), ''Duplicate (poster updated)''))
      else (conn, Inr (False, Some (show_id row), ''Duplicate'')))"
proof -
  from assms(3) have "norm_key year corps title \<in> set (map show_norm_key (shows_tbl conn))"
    using find_SomeD [OF assms(3)] by (auto intro: rev_image_eqI)
  with assms show ?thesis
    by (simp add: add_show_def insert_show_def norm_key_strip Let_def show_by_norm_key_def)
qed


lemma add_show_first:
  assumes uniq: "distinct (map show_norm_key (shows_tbl conn))"
    and valid: "strip corps \<noteq> []" "strip title \<noteq> []"
    and year: "in_int64 year"
    and first: "add_show conn now year corps title poster = (conn1, res1)"
  shows "distinct (map show_norm_key (shows_tbl conn1)) \<and>
         norm_key year corps title \<in> set (map show_norm_key (shows_tbl conn1))"
proof (cases "norm_key year corps title \<in> set (map show_norm_key (shows_tbl conn))")
  case False
  from add_show_new [OF valid False year, of now poster] first uniq False
  show ?thesis by auto
next
  case True
  from unique_key_row [OF uniq True] obtain row where
    row: "find (\<lambda>r. show_norm_key r = norm_key year corps title) (shows_tbl conn) = Some row"
    by blast
  have keep: "map show_norm_key (shows_tbl (set_show_poster conn p i)) =
              map show_norm_key (shows_tbl conn)" for p i
    by (simp add: set_show_poster_def comp_def)
  from add_show_dup [OF valid row year, of now poster] first
  have "map show_norm_key (shows_tbl conn1) = map show_norm_key (shows_tbl conn)"
    by (auto simp: keep split: if_splits)
  with uniq True show ?thesis by simp
qed

text \<open>
  Claim C1, amended. On a store whose shows have pairwise distinct \<open>norm_key\<close>s, \<open>add_show\<close>
  with a valid triple (corps and title not empty after trimming, year within the signed
  64-bit range), followed by \<open>add_show\<close> with any valid triple of the same \<open>norm_key\<close>, leaves
  exactly one show row with that key. The second call inserts no row and reports a
  duplicate; it overwrites that row's \<open>poster_url\<close> exactly when the caller supplied a
  poster (not blank after trimming) and the stored one is \<open>NULL\<close> or blank, and leaves the
  row as it was otherwise.
\<close>

theorem add_show_twice_one_row:
  assumes uniq: "distinct (map show_norm_key (shows_tbl conn))"
    and valid1: "strip corps \<noteq> []" "strip title \<noteq> []"
    and valid2: "strip corps' \<noteq> []" "strip title' \<noteq> []"
    and years: "in_int64 year" "in_int64 year'"
    and same: "norm_key year' corps' title' = norm_key year corps title"
    and first: "add_show conn now year corps title poster = (conn1, res1)"
    and second: "add_show conn1 now' year' corps' title' poster' = (conn2, res2)"
  shows "\<exists>row. filter (\<lambda>r. show_norm_key r = norm_key year corps title) (shows_tbl conn1) = [row]
           \<and> filter (\<lambda>r. show_norm_key r = norm_key year corps title) (shows_tbl conn2) =
               [if or_none (strip (or_empty poster')) \<noteq> None \<and> poster_blank (show_poster_url row)
                then row\<lparr>show_poster_url := or_none (strip (or_empty poster'))\<rparr> else row]
           \<and> length (shows_tbl conn2) = length (shows_tbl conn1)
           \<and> res2 = Inr (False, Some (show_id row),
                 if or_none (strip (or_empty poster')) \<noteq> None \<and> poster_blank (show_poster_url row)
                 then ''Duplicate (poster updated)'' else ''Duplicate'')"
proof -
  let ?key = "norm_key year corps title"
  from add_show_first [OF uniq valid1 years(1) first]
  have d1: "distinct (map show_norm_key (shows_tbl conn1))"
    and m1: "?key \<in> set (map show_norm_key (shows_tbl conn1))" by simp_all
  from unique_key_row [OF d1 m1] obtain row where
    f1: "filter (\<lambda>r. show_norm_key r = ?key) (shows_tbl conn1) = [row]"
    and row: "find (\<lambda>r. show_norm_key r = ?key) (shows_tbl conn1) = Some row"
    by blast
  from row have krow: "show_norm_key row = ?key"
    by (auto simp: find_Some_iff)
  from row same have row': "find (\<lambda>r. show_norm_key r = norm_key year' corps' title')
      (shows_tbl conn1) = Some row" by simp
  note dup = add_show_dup [OF valid2 row' years(2), of now' poster']
  let ?c = "or_none (strip (or_empty poster')) \<noteq> None \<and> poster_blank (show_poster_url row)"
  show ?thesis
  proof (cases ?c)
    case True
    with dup second have c2: "conn2 = set_show_poster conn1 (or_none (strip (or_empty poster'))) (show_id row)"
      and r2: "res2 = Inr (False, Some (show_id row), ''Duplicate (poster updated)'')"
      by simp_all
    have "filter (\<lambda>r. show_norm_key r = ?key) (shows_tbl conn2) =
          map (\<lambda>r. if show_id r = show_id row
                   then r\<lparr>show_poster_url := or_none (strip (or_empty poster'))\<rparr> else r)
              (filter (\<lambda>r. show_norm_key r = ?key) (shows_tbl conn1))"
      unfolding c2 set_show_poster_def
      by (simp add: filter_map_keep [where f = show_norm_key])
    with f1 True c2 r2 show ?thesis
      by (intro exI [of _ row]) (simp add: set_show_poster_def)
  next
    case False
    with dup second have "conn2 = conn1"
      and "res2 = Inr (False, Some (show_id row), ''Duplicate'')"
      by auto
    with f1 False show ?thesis by (intro exI [of _ row]) auto
  qed
qed


text \<open>
  Claim C1 as stated fails in two places. A second triple with a blank corps has the
  \<open>norm_key\<close> of the stored show \<open>(2017, "!!!", "x")\<close>, yet \<open>add_show\<close> answers
  \<open>"Missing corps or title."\<close> and leaves the missing poster missing although the caller
  supplied one. And a year outside the signed 64-bit range makes the \<open>INSERT\<close> raise
  \<open>OverflowError\<close>, which \<open>add_show\<close> does not catch: no row is stored.
\<close>

theorem add_show_twice_one_row_counterexample:
  "strip ''!!!'' \<noteq> [] \<and> strip ''x'' \<noteq> []
   \<and> norm_key 2017 [] ''x'' = norm_key 2017 ''!!!'' ''x''
   \<and> shows_tbl (fst (add_show empty_db 100 2017 ''!!!'' ''x'' None)) =
       [\<lparr>show_id = 1, show_title = ''x'', show_corps = ''!!!'', show_year = 2017,
         show_poster_url = None, show_norm_key = ''2017||x'', show_created_ts = 100\<rparr>]
   \<and> add_show (fst (add_show empty_db 100 2017 ''!!!'' ''x'' None)) 200 2017 [] ''x''
         (Some ''http://p/1.png'') =
       (fst (add_show empty_db 100 2017 ''!!!'' ''x'' None),
        Inr (False, None, ''Missing corps or title.''))
   \<and> add_show empty_db 100 (2 ^ 63) ''Blue Devils'' ''Metamorph'' None =
       (empty_db, Inl OverflowError)"
proof -
  have v: "strip ''!!!'' = ''!!!''" "strip ''x'' = ''x''" "strip [] = []"
    "strip ''Blue Devils'' \<noteq> []" "strip ''Metamorph'' \<noteq> []"
    by code_simp+
  have k: "norm_key 2017 ''!!!'' ''x'' = ''2017||x''" "norm_key 2017 [] ''x'' = ''2017||x''"
    by code_simp+
  have y: "in_int64 2017" "\<not> in_int64 (2 ^ 63)" by (simp_all add: in_int64_def)
  have new: "norm_key 2017 ''!!!'' ''x'' \<notin> set (map show_norm_key (shows_tbl empty_db))"
    by (simp add: empty_db_def)
  have first: "shows_tbl (fst (add_show empty_db 100 2017 ''!!!'' ''x'' None)) =
       [\<lparr>show_id = 1, show_title = ''x'', show_corps = ''!!!'', show_year = 2017,
         show_poster_url = None, show_norm_key = ''2017||x'', show_created_ts = 100\<rparr>]"
    using add_show_new [of "''!!!''" "''x''" 2017 empty_db 100 None] new y(1)
    by (simp add: v k empty_db_def next_rowid_def or_none_def or_empty_def)
  have second: "add_show c 200 2017 [] ''x'' (Some ''http://p/1.png'') =
       (c, Inr (False, None, ''Missing corps or title.''))" for c
    by (simp add: add_show_def v)
  have over: "add_show empty_db 100 (2 ^ 63) ''Blue Devils'' ''Metamorph'' None =
       (empty_db, Inl OverflowError)"
    using v(4,5) y(2) by (simp add: add_show_def insert_show_def Let_def)
  from v k first second over show ?thesis by simp
qed

theorem add_show_twice_one_row_witness:
  "\<exists>row. filter (\<lambda>r. show_norm_key r = ''2017|blue devils|metamorph'')
            (shows_tbl (fst (add_show empty_db 100 2017 ''Blue Devils'' ''Metamorph'' None))) = [row]
     \<and> filter (\<lambda>r. show_norm_key r = ''2017|blue devils|metamorph'')
            (shows_tbl (fst (add_show (fst (add_show empty_db 100 2017 ''Blue Devils'' ''Metamorph'' None))
                 200 2017 ''  BLUE   devils!! '' ''Meta_morph'' (Some '' http://p/1.png '')))) =
          [row\<lparr>show_poster_url := Some ''http://p/1.png''\<rparr>]
     \<and> show_poster_url row = None"
proof -
  have k1: "norm_key 2017 ''Blue Devils'' ''Metamorph'' = ''2017|blue devils|metamorph''"
    by code_simp
  have k2: "norm_key 2017 ''  BLUE   devils!! '' ''Meta_morph'' = ''2017|blue devils|metamorph''"
    by code_simp
  have v: "strip ''Blue Devils'' \<noteq> []" "strip ''Metamorph'' \<noteq> []"
    "strip ''  BLUE   devils!! '' \<noteq> []" "strip ''Meta_morph'' \<noteq> []"
    by code_simp+
  have p: "or_none (strip (or_empty (Some '' http://p/1.png ''))) = Some ''http://p/1.png''"
    by code_simp
  have u: "distinct (map show_norm_key (shows_tbl empty_db))"
    by (simp add: empty_db_def)
  have new: "norm_key 2017 ''Blue Devils'' ''Metamorph'' \<notin> set (map show_norm_key (shows_tbl empty_db))"
    by (simp add: empty_db_def)
  have y: "in_int64 2017" by (simp add: in_int64_def)
  have first: "shows_tbl (fst (add_show empty_db 100 2017 ''Blue Devils'' ''Metamorph'' None)) =
     [\<lparr>show_id = 1, show_title = strip ''Metamorph'', show_corps = strip ''Blue Devils'',
       show_year = 2017, show_poster_url = None,
       show_norm_key = ''2017|blue devils|metamorph'', show_created_ts = 100\<rparr>]"
    unfolding add_show_new [OF v(1) v(2) new y] k1
    by (simp add: empty_db_def next_rowid_def or_none_def or_empty_def strip_def)
  from add_show_twice_one_row [OF u v(1) v(2) v(3) v(4) y y _ surjective_pairing
      surjective_pairing, where now = 100 and poster = None and now' = 200
      and poster' = "Some '' http://p/1.png ''"]
  show ?thesis unfolding k1 k2 p first
    by (auto simp: poster_blank_def)
qed

text \<open>
  Claim C9, as stated, asks for an exception. \<open>add_show\<close> raises none on a blank corps: it
  returns the triple \<open>(False, None, "Missing corps or title.")\<close>.
\<close>

theorem add_show_missing_counterexample:
  "snd (add_show empty_db 100 2017 ''  '' ''Metamorph'' None) =
     Inr (False, None, ''Missing corps or title.'')
   \<and> \<not> isl (snd (add_show empty_db 100 2017 ''  '' ''Metamorph'' None))"
proof -
  have "strip ''  '' = []" by code_simp
  then show ?thesis by (simp add: add_show_def)
qed

text \<open>
  Claim C9, amended. \<open>add_show\<close> trims corps and title; when either is empty after trimming
  it returns \<open>(False, None, "Missing corps or title.")\<close> without raising, and the store is
  the one it was given: no show row is inserted.
\<close>

theorem add_show_missing_returns_status:
  "strip corps = [] \<or> strip title = [] \<Longrightarrow>
   add_show conn now year corps title poster = (conn, Inr (False, None, ''Missing corps or title.''))"
  by (auto simp: add_show_def)

theorem add_show_missing_returns_status_witness:
  "(strip ''Blue Devils'' = [] \<or> strip '' '' = []) \<and>
   add_show empty_db 100 2017 ''Blue Devils'' '' '' (Some ''p'') =
     (empty_db, Inr (False, None, ''Missing corps or title.''))"
proof -
  have h: "strip ''Blue Devils'' = [] \<or> strip '' '' = []" by code_simp
  from add_show_missing_returns_status [OF h] h show ?thesis by simp
qed

section \<open>Properties of the vote ledger\<close>

lemma vote_key_update [simp]: "vote_key (r\<lparr>vote_value := x, vote_ts := t\<rparr>) = vote_key r"
  by (simp add: vote_key_def)

lemma find_filter_hd:
  "find P xs = (case filter P xs of [] \<Rightarrow> None | x # _ \<Rightarrow> Some x)"
  by (induction xs) auto

lemma distinct_key_filter:
  "distinct (map f xs) \<Longrightarrow> filter (\<lambda>r. f r = k) xs = [] \<or> (\<exists>r. filter (\<lambda>r. f r = k) xs = [r])"
proof (induction xs)
  case Nil
  then show ?case by simp
next
  case (Cons x xs)
  show ?case
  proof (cases "f x = k")
    case True
    with Cons.prems have "k \<notin> f ` set xs" by auto
    then have "filter (\<lambda>r. f r = k) xs = []" by (auto simp: filter_empty_conv)
    with True show ?thesis by simp
  next
    case False
    with Cons show ?thesis by auto
  qed
qed

lemma select_vote_votes_for:
  "select_vote conn s a v =
     (case votes_for conn (s, a, v) of [] \<Rightarrow> None | r # _ \<Rightarrow> Some (vote_value r))"
  by (simp add: select_vote_def votes_for_def find_filter_hd split: list.splits)

lemma votes_for_empty_iff:
  "votes_for conn k = [] \<longleftrightarrow> k \<notin> set (map vote_key (review_votes_tbl conn))"
  by (auto simp: votes_for_def filter_empty_conv)

lemma votes_for_insert:
  "votes_for (conn\<lparr>review_votes_tbl := review_votes_tbl conn @ [r]\<rparr>) k =
     votes_for conn k @ (if vote_key r = k then [r] else [])"
  by (simp add: votes_for_def)

lemma votes_for_delete:
  "votes_for (delete_vote conn s a v) k = (if k = (s, a, v) then [] else votes_for conn k)"
  by (auto simp: votes_for_def delete_vote_def filter_empty_conv intro: filter_cong)

lemma votes_for_update:
  "votes_for (update_vote conn x t s a v) k =
     (if k = (s, a, v) then map (\<lambda>r. r\<lparr>vote_value := x, vote_ts := t\<rparr>) (votes_for conn k)
      else votes_for conn k)"
proof -
  let ?g = "\<lambda>r. if vote_key r = (s, a, v) then r\<lparr>vote_value := x, vote_ts := t\<rparr> else r"
  have "filter (\<lambda>r. vote_key r = k) (map ?g xs) = map ?g (filter (\<lambda>r. vote_key r = k) xs)" for xs
    by (induction xs) auto
  moreover have "map ?g (filter (\<lambda>r. vote_key r = k) xs) =
      (if k = (s, a, v) then map (\<lambda>r. r\<lparr>vote_value := x, vote_ts := t\<rparr>) (filter (\<lambda>r. vote_key r = k) xs)
       else filter (\<lambda>r. vote_key r = k) xs)" for xs
    by (induction xs) auto
  ultimately show ?thesis by (simp add: votes_for_def update_vote_def)
qed


lemma insert_vote_ok:
  assumes "votes_for conn (s, a, v) = []" "show_exists conn s" "user_exists conn a" "user_exists conn v"
  shows "insert_vote conn s a v x t =
    (conn\<lparr>review_votes_tbl := review_votes_tbl conn @
        [\<lparr>vote_show_id = s, vote_review_user_id = a, vote_voter_user_id = v,
          vote_value = x, vote_ts = t\<rparr>]\<rparr>, Inr ())"
  using assms by (simp add: insert_vote_def votes_for_empty_iff)

lemma exists_after_votes [simp]:
  "show_exists (delete_vote conn s a v) i = show_exists conn i"
  "user_exists (delete_vote conn s a v) i = user_exists conn i"
  "show_exists (update_vote conn x t s a v) i = show_exists conn i"
  "user_exists (update_vote conn x t s a v) i = user_exists conn i"
  "show_exists (conn\<lparr>review_votes_tbl := vs\<rparr>) i = show_exists conn i"
  "user_exists (conn\<lparr>review_votes_tbl := vs\<rparr>) i = user_exists conn i"
  by (simp_all add: show_exists_def user_exists_def delete_vote_def update_vote_def)

text \<open>
  Claim C2 as stated promises the insert for every key. The foreign keys of
  \<open>review_votes\<close> refuse it when the show does not exist: for show 99 the call raises
  \<open>IntegrityError\<close> and the key still holds no row.
\<close>

theorem set_review_vote_toggle_counterexample:
  "votes_for (vote_db []) (99, 1, 2) = []
   \<and> set_review_vote (vote_db []) 60 99 1 2 1 = (vote_db [], Inl IntegrityError)
   \<and> votes_for (fst (set_review_vote (vote_db []) 60 99 1 2 1)) (99, 1, 2) = []"
  by (simp add: vote_db_def set_review_vote_def select_vote_def insert_vote_def
      show_exists_def user_exists_def votes_for_def)

text \<open>
  Claim C2, amended. \<open>set_review_vote\<close> first normalizes the vote (positive to +1, anything else to
  -1). On a table that satisfies its primary key the key holds no row or one row, and:
  with no row, and the show and both users present, it inserts the row with the normalized
  vote; with a row of the same vote it deletes the row; with a row of another vote it
  rewrites that row's vote (and timestamp) in place. Afterwards the key holds at most one
  row, the rows of every other key are untouched, and the primary key still holds.
\<close>

theorem set_review_vote_toggle:
  assumes pk: "distinct (map vote_key (review_votes_tbl conn))"
    and run: "set_review_vote conn now s a v x = (conn', res)"
  shows "(votes_for conn (s, a, v) = [] \<and> show_exists conn s \<and> user_exists conn a \<and> user_exists conn v
            \<longrightarrow> res = Inr () \<and> votes_for conn' (s, a, v) =
                  [\<lparr>vote_show_id = s, vote_review_user_id = a, vote_voter_user_id = v,
                    vote_value = (if x > 0 then 1 else - 1), vote_ts = now\<rparr>])
       \<and> (\<forall>r. votes_for conn (s, a, v) = [r] \<and> vote_value r = (if x > 0 then 1 else - 1)
            \<longrightarrow> res = Inr () \<and> votes_for conn' (s, a, v) = [])
       \<and> (\<forall>r. votes_for conn (s, a, v) = [r] \<and> vote_value r \<noteq> (if x > 0 then 1 else - 1)
            \<longrightarrow> res = Inr () \<and> votes_for conn' (s, a, v) =
                  [r\<lparr>vote_value := (if x > 0 then 1 else - 1), vote_ts := now\<rparr>])
       \<and> (votes_for conn (s, a, v) = [] \<or> (\<exists>r. votes_for conn (s, a, v) = [r]))
       \<and> length (votes_for conn' (s, a, v)) \<le> 1
       \<and> (\<forall>k. k \<noteq> (s, a, v) \<longrightarrow> votes_for conn' k = votes_for conn k)
       \<and> distinct (map vote_key (review_votes_tbl conn'))"
proof -
  let ?k = "(s, a, v)" and ?x = "if x > 0 then 1 else - 1 :: int"
  from distinct_key_filter [OF pk, of ?k]
  consider (none) "votes_for conn ?k = []" | (one) r where "votes_for conn ?k = [r]"
    by (auto simp: votes_for_def)
  then show ?thesis
  proof cases
    case none
    then have sel: "select_vote conn s a v = None" by (simp add: select_vote_votes_for)
    show ?thesis
    proof (cases "show_exists conn s \<and> user_exists conn a \<and> user_exists conn v")
      case True
      with none sel run insert_vote_ok [of conn s a v ?x now]
      have c: "conn' = conn\<lparr>review_votes_tbl := review_votes_tbl conn @
          [\<lparr>vote_show_id = s, vote_review_user_id = a, vote_voter_user_id = v,
            vote_value = ?x, vote_ts = now\<rparr>]\<rparr>" and r: "res = Inr ()"
        by (simp_all add: set_review_vote_def)
      from none have "?k \<notin> set (map vote_key (review_votes_tbl conn))"
        by (simp add: votes_for_empty_iff)
      with pk have "distinct (map vote_key (review_votes_tbl conn'))"
        unfolding c by (simp add: vote_key_def)
      with none r show ?thesis
        unfolding c by (simp add: votes_for_insert vote_key_def)
    next
      case False
      with none sel run have "conn' = conn" "res = Inl IntegrityError"
        by (auto simp: set_review_vote_def insert_vote_def)
      with none False pk show ?thesis by simp
    qed
  next
    case one
    then have sel: "select_vote conn s a v = Some (vote_value r)"
      by (simp add: select_vote_votes_for)
    show ?thesis
    proof (cases "vote_value r = ?x")
      case True
      with sel run have c: "conn' = delete_vote conn s a v" and r: "res = Inr ()"
        by (simp_all add: set_review_vote_def)
      have "distinct (map vote_key (review_votes_tbl conn'))"
        unfolding c delete_vote_def using pk by (simp add: distinct_map_filter)
      with one True r show ?thesis unfolding c by (simp add: votes_for_delete)
    next
      case False
      with sel run have c: "conn' = update_vote conn ?x now s a v" and r: "res = Inr ()"
        by (simp_all add: set_review_vote_def)
      have "map vote_key (review_votes_tbl conn') = map vote_key (review_votes_tbl conn)"
        unfolding c update_vote_def by (simp add: comp_def if_distrib [of vote_key] cong: if_cong)
      with pk have "distinct (map vote_key (review_votes_tbl conn'))" by simp
      with one False r show ?thesis unfolding c by (simp add: votes_for_update)
    qed
  qed
qed


lemma select_after_insert:
  "select_vote conn s a v = None \<Longrightarrow>
   select_vote (conn\<lparr>review_votes_tbl := review_votes_tbl conn @
        [\<lparr>vote_show_id = s, vote_review_user_id = a, vote_voter_user_id = v,
          vote_value = x, vote_ts = t\<rparr>]\<rparr>) s a v = Some x"
  by (simp add: select_vote_votes_for votes_for_insert vote_key_def split: list.splits)

lemma select_after_delete: "select_vote (delete_vote conn s a v) s a v = None"
  by (simp add: select_vote_votes_for votes_for_delete)

lemma select_after_update:
  "select_vote conn s a v = Some e \<Longrightarrow> select_vote (update_vote conn x t s a v) s a v = Some x"
  by (simp add: select_vote_votes_for votes_for_update split: list.splits)

text \<open>
  Claim C10, amended. For a show and users that exist, two calls of \<open>set_review_vote\<close> with
  the same vote both succeed; they restore the vote stored under the key when the key held no
  row or a row with the same (normalized) vote, and they leave no row when the key held the
  other vote.
\<close>

theorem set_review_vote_twice:
  assumes fk: "show_exists conn s" "user_exists conn a" "user_exists conn v"
    and first: "set_review_vote conn n1 s a v x = (c1, r1)"
    and second: "set_review_vote c1 n2 s a v x = (c2, r2)"
  shows "r1 = Inr () \<and> r2 = Inr ()
       \<and> (select_vote conn s a v = None \<longrightarrow> select_vote c2 s a v = None)
       \<and> (select_vote conn s a v = Some (if x > 0 then 1 else - 1)
            \<longrightarrow> select_vote c2 s a v = Some (if x > 0 then 1 else - 1))
       \<and> (\<forall>e. select_vote conn s a v = Some e \<and> e \<noteq> (if x > 0 then 1 else - 1)
            \<longrightarrow> select_vote c2 s a v = None)"
proof -
  define nv :: int where "nv = (if x > 0 then 1 else - 1)"
  let ?ins = "\<lambda>c t. c\<lparr>review_votes_tbl := review_votes_tbl c @
        [\<lparr>vote_show_id = s, vote_review_user_id = a, vote_voter_user_id = v,
          vote_value = nv, vote_ts = t\<rparr>]\<rparr>"
  have step: "set_review_vote c n s a v x =
      (case select_vote c s a v of
         None \<Rightarrow> insert_vote c s a v nv n
       | Some e \<Rightarrow> if e = nv then (delete_vote c s a v, Inr ())
                   else (update_vote c nv n s a v, Inr ()))" for c n
    unfolding set_review_vote_def Let_def nv_def by (rule refl)
  have ins: "insert_vote c s a v nv t = (?ins c t, Inr ())"
    if "select_vote c s a v = None" "show_exists c s" "user_exists c a" "user_exists c v" for c t
    using that insert_vote_ok [of c s a v nv t]
    by (simp add: select_vote_votes_for split: list.splits)
  have "r1 = Inr () \<and> r2 = Inr ()
       \<and> (select_vote conn s a v = None \<longrightarrow> select_vote c2 s a v = None)
       \<and> (select_vote conn s a v = Some nv \<longrightarrow> select_vote c2 s a v = Some nv)
       \<and> (\<forall>e. select_vote conn s a v = Some e \<and> e \<noteq> nv \<longrightarrow> select_vote c2 s a v = None)"
  proof (cases "select_vote conn s a v")
    case None
    with first ins [OF None fk, of n1] have c1: "c1 = ?ins conn n1" and r1: "r1 = Inr ()"
      by (simp_all add: step)
    from select_after_insert [OF None, of nv n1] have "select_vote c1 s a v = Some nv"
      unfolding c1 .
    with second have "c2 = delete_vote c1 s a v" "r2 = Inr ()"
      by (simp_all add: step)
    with None r1 show ?thesis by (simp add: select_after_delete)
  next
    case (Some e)
    show ?thesis
    proof (cases "e = nv")
      case True
      with Some first have c1: "c1 = delete_vote conn s a v" and r1: "r1 = Inr ()"
        by (simp_all add: step)
      have n: "select_vote c1 s a v = None" unfolding c1 by (rule select_after_delete)
      from fk have fk1: "show_exists c1 s" "user_exists c1 a" "user_exists c1 v"
        unfolding c1 by simp_all
      from second n ins [OF n fk1, of n2] have "c2 = ?ins c1 n2" and r2: "r2 = Inr ()"
        by (simp_all add: step)
      with select_after_insert [OF n, of nv n2] have "select_vote c2 s a v = Some nv" by simp
      with Some True r1 r2 show ?thesis by simp
    next
      case False
      with Some first have c1: "c1 = update_vote conn nv n1 s a v" and r1: "r1 = Inr ()"
        by (simp_all add: step)
      from select_after_update [OF Some, of nv n1] have "select_vote c1 s a v = Some nv"
        unfolding c1 .
      with second have "c2 = delete_vote c1 s a v" "r2 = Inr ()"
        by (simp_all add: step)
      with Some False r1 show ?thesis by (simp add: select_after_delete)
    qed
  qed
  then show ?thesis unfolding nv_def .
qed

lemmas vote_eval = vote_db_def down_vote_def set_review_vote_def select_vote_def insert_vote_def
  delete_vote_def update_vote_def vote_key_def show_exists_def user_exists_def votes_for_def

text \<open>
  Claim C10 as stated fails from a stored down-vote: two up-votes first switch the row to +1
  and then delete it, so the key ends with no row, not with the down-vote it started from.
\<close>

theorem set_review_vote_twice_counterexample:
  "select_vote (vote_db [down_vote]) 1 1 2 = Some (- 1)
   \<and> select_vote (fst (set_review_vote (fst (set_review_vote (vote_db [down_vote]) 60 1 1 2 1))
                         70 1 1 2 1)) 1 1 2 = None"
  by (simp add: vote_eval)

theorem set_review_vote_twice_witness:
  "select_vote (vote_db []) 1 1 2 = None
   \<and> select_vote (fst (set_review_vote (fst (set_review_vote (vote_db []) 60 1 1 2 1))
                         70 1 1 2 1)) 1 1 2 = None"
proof -
  have fk: "show_exists (vote_db []) 1" "user_exists (vote_db []) 1" "user_exists (vote_db []) 2"
    by (simp_all add: vote_eval)
  have n: "select_vote (vote_db []) 1 1 2 = None" by (simp add: vote_eval)
  from set_review_vote_twice [OF fk surjective_pairing surjective_pairing,
      where ?n1.0 = 60 and x = 1 and ?n2.0 = 70] n
  show ?thesis by simp
qed

theorem set_review_vote_toggle_witness:
  "votes_for (fst (set_review_vote (vote_db []) 60 1 1 2 5)) (1, 1, 2) =
     [\<lparr>vote_show_id = 1, vote_review_user_id = 1, vote_voter_user_id = 2,
       vote_value = 1, vote_ts = 60\<rparr>]
   \<and> votes_for (fst (set_review_vote (vote_db [down_vote]) 60 1 1 2 0)) (1, 1, 2) = []
   \<and> votes_for (fst (set_review_vote (vote_db [down_vote]) 60 1 1 2 1)) (1, 1, 2) =
     [down_vote\<lparr>vote_value := 1, vote_ts := 60\<rparr>]"
proof -
  have pk: "distinct (map vote_key (review_votes_tbl (vote_db [])))"
    "distinct (map vote_key (review_votes_tbl (vote_db [down_vote])))"
    by (simp_all add: vote_eval)
  have fk: "show_exists (vote_db []) 1" "user_exists (vote_db []) 1" "user_exists (vote_db []) 2"
    by (simp_all add: vote_eval)
  have e: "votes_for (vote_db []) (1, 1, 2) = []"
    "votes_for (vote_db [down_vote]) (1, 1, 2) = [down_vote]" "vote_value down_vote = - 1"
    by (simp_all add: vote_eval)
  from set_review_vote_toggle [OF pk(1) surjective_pairing,
        where now = 60 and s = 1 and a = 1 and v = 2 and x = 5]
    set_review_vote_toggle [OF pk(2) surjective_pairing,
        where now = 60 and s = 1 and a = 1 and v = 2 and x = 0]
    set_review_vote_toggle [OF pk(2) surjective_pairing,
        where now = 60 and s = 1 and a = 1 and v = 2 and x = 1] fk e
  show ?thesis by simp
qed

section \<open>Properties of the rating and review ledgers\<close>

lemma upsert_rating_rows:
  assumes pk: "distinct (map rating_key (ratings_tbl conn))"
    and fk: "show_exists conn s" "user_exists conn u"
  shows "\<exists>c. upsert_rating conn now s u x = (c, Inr ())
           \<and> ratings_for c (s, u) =
                 [\<lparr>rating_show_id = s, rating_user_id = u, rating_half = max 0 (min 10 x), rating_ts = now\<rparr>]
           \<and> distinct (map rating_key (ratings_tbl c))
           \<and> show_exists c s \<and> user_exists c u"
proof (cases "(s, u) \<in> set (map rating_key (ratings_tbl conn))")
  case False
  then have "filter (\<lambda>r. rating_key r = (s, u)) (ratings_tbl conn) = []"
    by (auto simp: filter_empty_conv intro: rev_image_eqI)
  with False pk fk show ?thesis
    by (simp add: upsert_rating_def ratings_for_def rating_key_def show_exists_def
        user_exists_def Let_def)
next
  case True
  let ?g = "\<lambda>r. if rating_key r = (s, u)
                 then r\<lparr>rating_half := max 0 (min 10 x), rating_ts := now\<rparr> else r"
  from unique_key_row [OF pk True] obtain r where
    r: "filter (\<lambda>r. rating_key r = (s, u)) (ratings_tbl conn) = [r]" by blast
  then have "r \<in> set (filter (\<lambda>r. rating_key r = (s, u)) (ratings_tbl conn))" by simp
  then have kr: "rating_key r = (s, u)" by simp
  have keep: "rating_key (?g r') = rating_key r'" for r'
    by (simp add: rating_key_def)
  have m: "map rating_key (map ?g (ratings_tbl conn)) = map rating_key (ratings_tbl conn)"
    by (simp add: comp_def keep)
  have f: "filter (\<lambda>r. rating_key r = (s, u)) (map ?g (ratings_tbl conn)) = [?g r]"
    using filter_map_keep [of rating_key ?g "(s, u)" "ratings_tbl conn", OF keep] r by simp
  have gr: "?g r = \<lparr>rating_show_id = s, rating_user_id = u,
                     rating_half = max 0 (min 10 x), rating_ts = now\<rparr>"
    using kr by (cases r) (simp add: rating_key_def)
  let ?c = "conn\<lparr>ratings_tbl := map ?g (ratings_tbl conn)\<rparr>"
  have sel: "ratings_tbl ?c = map ?g (ratings_tbl conn)" by simp
  from True have run: "upsert_rating conn now s u x = (?c, Inr ())"
    by (simp add: upsert_rating_def Let_def)
  have rows: "ratings_for ?c (s, u) = [\<lparr>rating_show_id = s, rating_user_id = u,
                     rating_half = max 0 (min 10 x), rating_ts = now\<rparr>]"
    unfolding ratings_for_def sel f gr ..
  have d: "distinct (map rating_key (ratings_tbl ?c))"
    unfolding sel m by (rule pk)
  from fk have "show_exists ?c s" "user_exists ?c u"
    by (simp_all add: show_exists_def user_exists_def)
  with run rows d show ?thesis by blast
qed


text \<open>
  Claim C6. On a ratings table that satisfies its uniqueness constraint, for a show and a
  user that exist, \<open>upsert_rating\<close> with any integer succeeds and leaves the pair
  (show, user) with exactly one rating row, whose value is the input clamped to the range
  0 to 10; a second call succeeds as well and leaves exactly one row for the pair, whose
  value is the second input clamped to that range (and whose timestamp is the second
  call's).
\<close>

theorem upsert_rating_twice:
  assumes pk: "distinct (map rating_key (ratings_tbl conn))"
    and fk: "show_exists conn s" "user_exists conn u"
  shows "\<exists>c1 c2. upsert_rating conn n1 s u v = (c1, Inr ())
           \<and> ratings_for c1 (s, u) =
                [\<lparr>rating_show_id = s, rating_user_id = u,
                  rating_half = (if v < 0 then 0 else if 10 < v then 10 else v),
                  rating_ts = n1\<rparr>]
           \<and> upsert_rating c1 n2 s u v2 = (c2, Inr ())
           \<and> ratings_for c2 (s, u) =
                [\<lparr>rating_show_id = s, rating_user_id = u,
                  rating_half = (if v2 < 0 then 0 else if 10 < v2 then 10 else v2),
                  rating_ts = n2\<rparr>]"
proof -
  have clamp: "max 0 (min 10 x) = (if x < 0 then 0 else if 10 < x then 10 else x)" for x :: int
    by auto
  from upsert_rating_rows [OF pk fk, of n1 v] obtain c1 where
    1: "upsert_rating conn n1 s u v = (c1, Inr ())"
    and rows1: "ratings_for c1 (s, u) =
                [\<lparr>rating_show_id = s, rating_user_id = u,
                  rating_half = max 0 (min 10 v), rating_ts = n1\<rparr>]"
    and pk1: "distinct (map rating_key (ratings_tbl c1))"
    and fk1: "show_exists c1 s" "user_exists c1 u" by blast
  from upsert_rating_rows [OF pk1 fk1, of n2 v2] obtain c2 where
    2: "upsert_rating c1 n2 s u v2 = (c2, Inr ())"
    and rows2: "ratings_for c2 (s, u) =
                [\<lparr>rating_show_id = s, rating_user_id = u,
                  rating_half = max 0 (min 10 v2), rating_ts = n2\<rparr>]" by blast
  from 1 2 rows1 rows2 show ?thesis unfolding clamp by blast
qed

lemma upsert_review_rows:
  assumes pk: "distinct (map review_key (reviews_tbl conn))"
    and fk: "show_exists conn s" "user_exists conn u"
    and ok: "strip raw \<noteq> []" "length (strip raw) \<le> 5000"
  shows "\<exists>c. upsert_review conn now s u raw = (c, Inr ())
           \<and> reviews_for c (s, u) =
                 [\<lparr>review_show_id = s, review_user_id = u, review_text = strip raw, review_ts = now\<rparr>]"
proof (cases "(s, u) \<in> set (map review_key (reviews_tbl conn))")
  case False
  then have "filter (\<lambda>r. review_key r = (s, u)) (reviews_tbl conn) = []"
    by (auto simp: filter_empty_conv intro: rev_image_eqI)
  with False fk ok show ?thesis
    by (simp add: upsert_review_def reviews_for_def review_key_def show_exists_def
        user_exists_def Let_def)
next
  case True
  let ?g = "\<lambda>r. if review_key r = (s, u)
                 then r\<lparr>review_text := strip raw, review_ts := now\<rparr> else r"
  from unique_key_row [OF pk True] obtain r where
    r: "filter (\<lambda>r. review_key r = (s, u)) (reviews_tbl conn) = [r]" by blast
  then have "r \<in> set (filter (\<lambda>r. review_key r = (s, u)) (reviews_tbl conn))" by simp
  then have kr: "review_key r = (s, u)" by simp
  have keep: "review_key (?g r') = review_key r'" for r'
    by (simp add: review_key_def)
  have f: "filter (\<lambda>r. review_key r = (s, u)) (map ?g (reviews_tbl conn)) = [?g r]"
    using filter_map_keep [of review_key ?g "(s, u)" "reviews_tbl conn", OF keep] r by simp
  have gr: "?g r = \<lparr>review_show_id = s, review_user_id = u,
                     review_text = strip raw, review_ts = now\<rparr>"
    using kr by (cases r) (simp add: review_key_def)
  let ?c = "conn\<lparr>reviews_tbl := map ?g (reviews_tbl conn)\<rparr>"
  have sel: "reviews_tbl ?c = map ?g (reviews_tbl conn)" by simp
  from True ok have run: "upsert_review conn now s u raw = (?c, Inr ())"
    by (simp add: upsert_review_def Let_def)
  have rows: "reviews_for ?c (s, u) = [\<lparr>review_show_id = s, review_user_id = u,
                     review_text = strip raw, review_ts = now\<rparr>]"
    unfolding reviews_for_def sel f gr ..
  from run rows show ?thesis by blast
qed

text \<open>
  Claim C7. \<open>upsert_review\<close> trims the text. It raises \<open>ValueError\<close> exactly when the trimmed
  text is empty or longer than 5000 characters, and then leaves the store as it was. A
  trimmed text of 1 to 5000 characters, for a show and a user that exist and on a reviews
  table that satisfies its primary key, is accepted: the pair (show, user) then holds
  exactly one review row, with the trimmed text.
\<close>

theorem upsert_review_validation:
  "((\<exists>msg. snd (upsert_review conn now s u raw) = Inl (ValueError msg))
       \<longleftrightarrow> strip raw = [] \<or> length (strip raw) > 5000)
   \<and> (strip raw = [] \<or> length (strip raw) > 5000 \<longrightarrow> fst (upsert_review conn now s u raw) = conn)
   \<and> (strip raw \<noteq> [] \<and> length (strip raw) \<le> 5000
        \<and> distinct (map review_key (reviews_tbl conn)) \<and> show_exists conn s \<and> user_exists conn u
       \<longrightarrow> snd (upsert_review conn now s u raw) = Inr ()
           \<and> reviews_for (fst (upsert_review conn now s u raw)) (s, u) =
               [\<lparr>review_show_id = s, review_user_id = u, review_text = strip raw, review_ts = now\<rparr>])"
proof (intro conjI impI)
  show "(\<exists>msg. snd (upsert_review conn now s u raw) = Inl (ValueError msg))
       \<longleftrightarrow> strip raw = [] \<or> length (strip raw) > 5000"
    by (auto simp: upsert_review_def Let_def)
next
  assume "strip raw = [] \<or> length (strip raw) > 5000"
  then show "fst (upsert_review conn now s u raw) = conn"
    by (auto simp: upsert_review_def Let_def)
next
  assume a: "strip raw \<noteq> [] \<and> length (strip raw) \<le> 5000
        \<and> distinct (map review_key (reviews_tbl conn)) \<and> show_exists conn s \<and> user_exists conn u"
  from upsert_review_rows [of conn s u raw now] a obtain c where
    "upsert_review conn now s u raw = (c, Inr ())"
    "reviews_for c (s, u) =
       [\<lparr>review_show_id = s, review_user_id = u, review_text = strip raw, review_ts = now\<rparr>]"
    by blast
  then show "snd (upsert_review conn now s u raw) = Inr ()"
    and "reviews_for (fst (upsert_review conn now s u raw)) (s, u) =
               [\<lparr>review_show_id = s, review_user_id = u, review_text = strip raw, review_ts = now\<rparr>]"
    by simp_all
qed

lemma strip_id:
  assumes "s \<noteq> []" "\<not> is_space (hd s)" "\<not> is_space (last s)"
  shows "strip s = s"
proof -
  from assms have 1: "dropWhile is_space s = s" by (cases s) simp_all
  from assms have "rev s \<noteq> []" "\<not> is_space (hd (rev s))" by (simp_all add: hd_rev)
  then have "dropWhile is_space (rev s) = rev s" by (cases "rev s") simp_all
  with 1 show ?thesis by (simp add: strip_def)
qed


theorem upsert_rating_twice_witness:
  "\<exists>c1 c2. upsert_rating (vote_db []) 20 1 1 42 = (c1, Inr ())
      \<and> ratings_for c1 (1, 1) =
            [\<lparr>rating_show_id = 1, rating_user_id = 1, rating_half = 10, rating_ts = 20\<rparr>]
      \<and> upsert_rating c1 21 1 1 (- 3) = (c2, Inr ())
      \<and> ratings_for c2 (1, 1) =
            [\<lparr>rating_show_id = 1, rating_user_id = 1, rating_half = 0, rating_ts = 21\<rparr>]"
proof -
  have pk: "distinct (map rating_key (ratings_tbl (vote_db [])))"
    by (simp add: vote_db_def)
  have fk: "show_exists (vote_db []) 1" "user_exists (vote_db []) 1"
    by (simp_all add: vote_db_def show_exists_def user_exists_def)
  from upsert_rating_twice [OF pk fk, where ?n1.0 = 20 and v = 42 and ?n2.0 = 21 and ?v2.0 = "- 3"]
  show ?thesis by simp
qed

lemma strip_replicate_a: "0 < n \<Longrightarrow> strip (replicate n (CHR ''a'')) = replicate n (CHR ''a'')"
  by (rule strip_id) (simp_all add: is_space_def ord_def last_replicate)

theorem upsert_review_validation_witness:
  "snd (upsert_review (vote_db []) 30 1 1 (replicate 5000 (CHR ''a''))) = Inr ()
   \<and> reviews_for (fst (upsert_review (vote_db []) 30 1 1 (replicate 5000 (CHR ''a'')))) (1, 1) =
       [\<lparr>review_show_id = 1, review_user_id = 1, review_text = replicate 5000 (CHR ''a''),
         review_ts = 30\<rparr>]
   \<and> (\<exists>msg. snd (upsert_review (vote_db []) 30 1 1 (replicate 5001 (CHR ''a''))) =
          Inl (ValueError msg))
   \<and> fst (upsert_review (vote_db []) 30 1 1 (replicate 5001 (CHR ''a''))) = vote_db []"
proof -
  have pk: "distinct (map review_key (reviews_tbl (vote_db [])))"
    by (simp add: vote_db_def)
  have fk: "show_exists (vote_db []) 1" "user_exists (vote_db []) 1"
    by (simp_all add: vote_db_def show_exists_def user_exists_def)
  have s0: "strip (replicate 5000 (CHR ''a'')) = replicate 5000 (CHR ''a'')"
    and s1: "strip (replicate 5001 (CHR ''a'')) = replicate 5001 (CHR ''a'')"
    by (simp_all add: strip_replicate_a)
  have ne: "replicate 5000 (CHR ''a'') \<noteq> []" by simp
  from upsert_review_validation [of "vote_db []" 30 1 1 "replicate 5000 (CHR ''a'')"]
    upsert_review_validation [of "vote_db []" 30 1 1 "replicate 5001 (CHR ''a'')"]
    pk fk ne
  show ?thesis unfolding s0 s1 by simp
qed

section \<open>Properties of the catalog listing\<close>





section \<open>Properties of the leaderboard\<close>

























section \<open>Properties of the role directory\<close>

lemma unique_slug_free: "unique_slug taken base slug n \<notin> set taken"
  by (induction taken base slug n rule: unique_slug.induct) (subst unique_slug.simps, simp)

lemma unique_slug_least:
  "unique_slug taken base slug n = slug \<and> slug \<notin> set taken
   \<or> slug \<in> set taken \<and>
     (\<exists>k \<ge> n. unique_slug taken base slug n = base @ ''-'' @ str_nat k
        \<and> (\<forall>j. n \<le> j \<and> j < k \<longrightarrow> base @ ''-'' @ str_nat j \<in> set taken))"
proof (induction taken base slug n rule: unique_slug.induct)
  case (1 taken base slug n)
  show ?case
  proof (cases "slug \<in> set taken")
    case False
    then show ?thesis by (subst unique_slug.simps) simp
  next
    case True
    let ?s = "base @ ''-'' @ str_nat n"
    have u: "unique_slug taken base slug n = unique_slug taken base ?s (Suc n)"
      using True by (subst unique_slug.simps) simp
    from "1.IH" [OF True] consider
      (stop) "unique_slug taken base ?s (Suc n) = ?s" "?s \<notin> set taken"
      | (go) k where "?s \<in> set taken" "Suc n \<le> k"
          "unique_slug taken base ?s (Suc n) = base @ ''-'' @ str_nat k"
          "\<forall>j. Suc n \<le> j \<and> j < k \<longrightarrow> base @ ''-'' @ str_nat j \<in> set taken"
      by blast
    then show ?thesis
    proof cases
      case stop
      with True u show ?thesis by (intro disjI2 conjI exI [of _ n]) auto
    next
      case go
      have "\<forall>j. n \<le> j \<and> j < k \<longrightarrow> base @ ''-'' @ str_nat j \<in> set taken"
      proof (intro allI impI)
        fix j assume j: "n \<le> j \<and> j < k"
        show "base @ ''-'' @ str_nat j \<in> set taken"
        proof (cases "j = n")
          case True
          with go(1) show ?thesis by simp
        next
          case False
          with j have "Suc n \<le> j \<and> j < k" by simp
          with go(4) show ?thesis by blast
        qed
      qed
      with True u go(2,3) show ?thesis
        by (intro disjI2 conjI exI [of _ k]) simp_all
    qed
  qed
qed


text \<open>
  Claim C8, amended. \<open>create_role\<close> with a name that is not empty after trimming and not yet
  a role's name stores exactly one new role under the trimmed name. Its slug is free in the
  table: it is the slug derived from the name (lower-cased, runs of other characters turned
  into one hyphen, hyphens trimmed, \<open>role\<close> if nothing is left) when that is free, and
  otherwise that slug followed by \<open>-k\<close> for the least \<open>k\<close> from 2 on that makes it free. With a
  name that a role already has, \<open>create_role\<close> raises \<open>IntegrityError\<close> and stores nothing;
  with an empty name it raises \<open>ValueError\<close>.
\<close>

theorem create_role_slug:
  "(strip name \<noteq> [] \<and> strip name \<notin> set (map role_name (roles_tbl conn)) \<longrightarrow>
      (\<exists>row. create_role conn now name color =
                (conn\<lparr>roles_tbl := roles_tbl conn @ [row], roles_seq := role_id row\<rparr>, Inr ())
         \<and> role_name row = strip name
         \<and> role_slug row \<notin> set (map role_slug (roles_tbl conn))
         \<and> (if slugify (strip name) \<notin> set (map role_slug (roles_tbl conn))
             then role_slug row = slugify (strip name)
             else \<exists>k \<ge> 2. role_slug row = slugify (strip name) @ ''-'' @ str_nat k
                    \<and> (\<forall>j. 2 \<le> j \<and> j < k \<longrightarrow>
                          slugify (strip name) @ ''-'' @ str_nat j
                            \<in> set (map role_slug (roles_tbl conn))))))
   \<and> (strip name \<noteq> [] \<and> strip name \<in> set (map role_name (roles_tbl conn)) \<longrightarrow>
        create_role conn now name color = (conn, Inl IntegrityError))
   \<and> (strip name = [] \<longrightarrow>
        create_role conn now name color = (conn, Inl (ValueError ''Role name is required.'')))"
proof (intro conjI impI)
  let ?slugs = "map role_slug (roles_tbl conn)"
  let ?base = "slugify (strip name)"
  let ?slug = "unique_slug ?slugs ?base ?base 2"
  assume a: "strip name \<noteq> [] \<and> strip name \<notin> set (map role_name (roles_tbl conn))"
  let ?row = "\<lparr>role_id = next_autoincrement (roles_seq conn) (map role_id (roles_tbl conn)),
               role_name = strip name, role_slug = ?slug,
               role_color = or_none (clean_hex_color color), role_created_ts = now\<rparr>"
  have free: "?slug \<notin> set ?slugs" by (rule unique_slug_free)
  with a have run: "create_role conn now name color =
      (conn\<lparr>roles_tbl := roles_tbl conn @ [?row], roles_seq := role_id ?row\<rparr>, Inr ())"
    by (simp add: create_role_def insert_role_def Let_def)
  have least: "if ?base \<notin> set ?slugs then ?slug = ?base
      else \<exists>k \<ge> 2. ?slug = ?base @ ''-'' @ str_nat k
             \<and> (\<forall>j. 2 \<le> j \<and> j < k \<longrightarrow> ?base @ ''-'' @ str_nat j \<in> set ?slugs)"
    using unique_slug_least [of ?slugs ?base ?base 2] by (auto split: if_splits)
  have "role_name ?row = strip name" "role_slug ?row = ?slug" by simp_all
  with run free least
  show "\<exists>row. create_role conn now name color =
                (conn\<lparr>roles_tbl := roles_tbl conn @ [row], roles_seq := role_id row\<rparr>, Inr ())
         \<and> role_name row = strip name
         \<and> role_slug row \<notin> set (map role_slug (roles_tbl conn))
         \<and> (if slugify (strip name) \<notin> set (map role_slug (roles_tbl conn))
             then role_slug row = slugify (strip name)
             else \<exists>k \<ge> 2. role_slug row = slugify (strip name) @ ''-'' @ str_nat k
                    \<and> (\<forall>j. 2 \<le> j \<and> j < k \<longrightarrow>
                          slugify (strip name) @ ''-'' @ str_nat j
                            \<in> set (map role_slug (roles_tbl conn))))"
    by (intro exI [of _ ?row]) (simp only: simp_thms if_True if_False)
next
  assume "strip name \<noteq> [] \<and> strip name \<in> set (map role_name (roles_tbl conn))"
  then show "create_role conn now name color = (conn, Inl IntegrityError)"
    by (simp add: create_role_def insert_role_def Let_def)
next
  assume "strip name = []"
  then show "create_role conn now name color = (conn, Inl (ValueError ''Role name is required.''))"
    by (simp add: create_role_def)
qed

text \<open>
  Claim C8 as stated fails: \<open>roles.name\<close> is \<open>UNIQUE\<close>, so the second role named
  \<open>"Veterans!!"\<close> is refused with \<open>IntegrityError\<close> and only the first, with slug
  \<open>veterans\<close>, is stored.
\<close>

theorem create_role_slug_counterexample:
  "create_role empty_db 10 ''Veterans!!'' [] =
     (empty_db\<lparr>roles_tbl := [\<lparr>role_id = 1, role_name = ''Veterans!!'', role_slug = ''veterans'',
                   role_color = None, role_created_ts = 10\<rparr>], roles_seq := 1\<rparr>, Inr ())
   \<and> create_role (fst (create_role empty_db 10 ''Veterans!!'' [])) 11 ''Veterans!!'' [] =
     (fst (create_role empty_db 10 ''Veterans!!'' []), Inl IntegrityError)"
  by code_simp


theorem create_role_slug_witness:
  "create_role empty_db 10 ''Veterans!!'' [] = (veterans_db, Inr ())
   \<and> (\<exists>row. create_role veterans_db 11 ''veterans??'' [] =
          (veterans_db\<lparr>roles_tbl := roles_tbl veterans_db @ [row], roles_seq := role_id row\<rparr>, Inr ())
        \<and> role_name row = ''veterans??'' \<and> role_slug row = ''veterans-2'')
   \<and> create_role veterans_db 11 ''Veterans!!'' [] = (veterans_db, Inl IntegrityError)"
proof -
  have s: "strip ''veterans??'' = ''veterans??''" "strip ''Veterans!!'' = ''Veterans!!''"
    by code_simp+
  have names: "map role_name (roles_tbl veterans_db) = [''Veterans!!'']"
    by (simp add: veterans_db_def)
  have first: "create_role empty_db 10 ''Veterans!!'' [] = (veterans_db, Inr ())"
    unfolding veterans_db_def by code_simp
  have ev: "create_role veterans_db 11 ''veterans??'' [] =
     (veterans_db\<lparr>roles_tbl := roles_tbl veterans_db @
         [\<lparr>role_id = 2, role_name = ''veterans??'', role_slug = ''veterans-2'',
           role_color = None, role_created_ts = 11\<rparr>], roles_seq := 2\<rparr>, Inr ())"
    unfolding veterans_db_def by code_simp
  note t = create_role_slug [of "''veterans??''" veterans_db 11 "[]"]
  from t obtain row where run: "create_role veterans_db 11 ''veterans??'' [] =
      (veterans_db\<lparr>roles_tbl := roles_tbl veterans_db @ [row], roles_seq := role_id row\<rparr>, Inr ())"
    and n: "role_name row = ''veterans??''"
    unfolding s names by auto
  from run ev have "roles_tbl (veterans_db\<lparr>roles_tbl := roles_tbl veterans_db @ [row],
        roles_seq := role_id row\<rparr>) =
      roles_tbl (veterans_db\<lparr>roles_tbl := roles_tbl veterans_db @
         [\<lparr>role_id = 2, role_name = ''veterans??'', role_slug = ''veterans-2'',
           role_color = None, role_created_ts = 11\<rparr>], roles_seq := 2\<rparr>)"
    by simp
  then have "role_slug row = ''veterans-2''" by simp
  with run n have 2: "\<exists>row. create_role veterans_db 11 ''veterans??'' [] =
          (veterans_db\<lparr>roles_tbl := roles_tbl veterans_db @ [row], roles_seq := role_id row\<rparr>, Inr ())
        \<and> role_name row = ''veterans??'' \<and> role_slug row = ''veterans-2''" by blast
  from create_role_slug [of "''Veterans!!''" veterans_db 11 "[]"]
  have 3: "create_role veterans_db 11 ''Veterans!!'' [] = (veterans_db, Inl IntegrityError)"
    unfolding s names by simp
  from first 2 3 show ?thesis by blast
qed

end
